theory Spec2Isabelle
  imports Main
begin

section \<open>The runbook \<open>runbooktemplate.py\<close>\<close>

text \<open>
  The runbook is a straight-line script.  It reads \<open>sys.argv\<close>, decodes an optional
  webhook envelope, copies five automation variables into \<open>os.environ\<close> and calls the
  manifest generator once.  Its collaborators are not part of the repository and are
  parameters of the model:
  \<^item> \<open>loads\<close>, the JSON decoder \<open>json.loads\<close>;
  \<^item> \<open>store\<close>, the automation account's variables behind
    \<open>automationassets.get_automation_variable\<close>, a partial map from names to string values
    (a missing name raises \<open>AutomationAssetNotFound\<close>);
  \<^item> \<open>gen\<close>, the outcome of \<open>munki_manifest_generator.main\<close> for given arguments and
    environment.
  Strings are byte strings (UTF-8).  An assignment to \<open>os.environ\<close> raises when the value
  holds a NUL byte.
  Every call across the boundary of the script is recorded in a journal, in program order.
\<close>

subsection \<open>Python values and exceptions\<close>

datatype pyval =
    PyNone
  | PyBool bool
  | PyInt int
  | PyFloat string
  | PyStr string
  | PyList "pyval list"
  | PyDict "(string \<times> pyval) list"

text \<open>
  A dictionary is the list of its items in insertion order, looked up with \<open>map_of\<close>.
  A float is kept as the literal it was read from.
\<close>

datatype exn =
    IndexError
  | KeyError string
  | TypeError
  | ValueError
  | JSONDecodeError
  | Unsupported
  | RecursionError
  | AutomationAssetNotFound string
  | GeneratorFailure string

text \<open>Subscription \<open>obj[key]\<close> with a string key, as in \<open>webhook_data['serial']\<close>.\<close>

fun getitem :: "pyval \<Rightarrow> string \<Rightarrow> exn + pyval" where
  "getitem (PyDict items) key =
     (case map_of items key of None \<Rightarrow> Inl (KeyError key) | Some v \<Rightarrow> Inr v)"
| "getitem _ key = Inl TypeError"

subsection \<open>String operations\<close>

text \<open>\<open>s.split(sep)\<close> for a one-character separator: never empty, one field more than separators.\<close>

fun str_split :: "char \<Rightarrow> string \<Rightarrow> string list" where
  "str_split sep [] = [[]]"
| "str_split sep (c # cs) =
     (if c = sep then [] # str_split sep cs
      else (case str_split sep cs of
              [] \<Rightarrow> [[c]]
            | f # fs \<Rightarrow> (c # f) # fs))"

text \<open>
  \<open>s.replace(old, new)\<close>: one pass from the left, every non-overlapping occurrence of
  \<open>old\<close> replaced.  For the empty \<open>old\<close> Python puts \<open>new\<close> around every character.
\<close>

function str_replace :: "string \<Rightarrow> string \<Rightarrow> string \<Rightarrow> string" where
  "str_replace old new s =
     (if old = [] then new @ concat (map (\<lambda>c. c # new) s)
      else if s = [] then []
      else if take (length old) s = old
        then new @ str_replace old new (drop (length old) s)
        else hd s # str_replace old new (tl s))"
  by pat_completeness auto
termination
  by (relation "measure (\<lambda>(old, new, s). length s)") auto

declare str_replace.simps [simp del]

text \<open>\<open>old in s\<close>.\<close>

fun str_contains :: "string \<Rightarrow> string \<Rightarrow> bool" where
  "str_contains old [] = (old = [])"
| "str_contains old (c # cs) = (take (length old) (c # cs) = old \<or> str_contains old cs)"

subsection \<open>Lines 11--18: the webhook argument\<close>

record trigger =
  webhook :: bool
  serial :: "pyval option"

text \<open>Lines 14--15: \<open>data = sys.argv[1].split(",")\<close>, \<open>w_data = data[1].replace("RequestBody:","")\<close>.\<close>

definition w_data :: "string \<Rightarrow> exn + string" where
  "w_data arg =
     (let data = str_split CHR '','' arg in
      if length data \<le> 1 then Inl IndexError
      else Inr (str_replace ''RequestBody:'' '''' (data ! 1)))"

definition parse_argv :: "(string \<Rightarrow> exn + pyval) \<Rightarrow> string list \<Rightarrow> exn + trigger" where
  "parse_argv loads argv =
     (if length argv > 1 then
        (case w_data (argv ! 1) of
           Inl e \<Rightarrow> Inl e
         | Inr w \<Rightarrow>
            (case loads w of
               Inl e \<Rightarrow> Inl e
             | Inr webhook_data \<Rightarrow>
                (case getitem webhook_data ''serial'' of
                   Inl e \<Rightarrow> Inl e
                 | Inr s \<Rightarrow> Inr \<lparr>webhook = True, serial = Some s\<rparr>)))
      else Inr \<lparr>webhook = False, serial = None\<rparr>)"

subsection \<open>The process state and the journal\<close>

type_synonym group = "(string \<times> string) list"

datatype event =
    GetVariable string "string option"
  | SetEnviron string string
  | MmgMain "group list" "pyval option"

record world =
  environ :: "string \<rightharpoonup> string"
  journal :: "event list"

type_synonym generator = "group list \<Rightarrow> pyval option \<Rightarrow> (string \<rightharpoonup> string) \<Rightarrow> exn option"

text \<open>A statement either raises, which ends the script, or hands the state on.\<close>

fun seq :: "exn option \<times> world \<Rightarrow> (world \<Rightarrow> exn option \<times> world) \<Rightarrow> exn option \<times> world" where
  "seq (Some e, w) f = (Some e, w)"
| "seq (None, w) f = f w"

subsection \<open>Lines 21--25: the automation variables\<close>

definition get_automation_variable ::
  "(string \<rightharpoonup> string) \<Rightarrow> string \<Rightarrow> world \<Rightarrow> (exn + string) \<times> world" where
  "get_automation_variable store name w =
     (case store name of
        None \<Rightarrow> (Inl (AutomationAssetNotFound name),
                 w\<lparr>journal := journal w @ [GetVariable name None]\<rparr>)
      | Some v \<Rightarrow> (Inr v, w\<lparr>journal := journal w @ [GetVariable name (Some v)]\<rparr>))"

text \<open>
  \<open>os.environ[key] = v\<close>.  The process environment cannot hold a NUL byte: Python raises
  \<open>ValueError\<close> (embedded null byte) before anything is stored.  The name is one of five
  literals and the value a byte string, so this is the only way the assignment fails.
\<close>

definition environ_setitem :: "string \<Rightarrow> string \<Rightarrow> world \<Rightarrow> exn option \<times> world" where
  "environ_setitem key v w =
     (if CHR 0x00 \<in> set v then (Some ValueError, w)
      else (None, w\<lparr>environ := (environ w)(key \<mapsto> v),
                    journal := journal w @ [SetEnviron key v]\<rparr>))"

text \<open>
  One line \<open>os.environ[name] = automationassets.get_automation_variable(name)\<close>: the
  lookup first, then the assignment; either may raise.
\<close>

definition publish :: "(string \<rightharpoonup> string) \<Rightarrow> string \<Rightarrow> world \<Rightarrow> exn option \<times> world" where
  "publish store name w =
     (case get_automation_variable store name w of
        (Inl e, w') \<Rightarrow> (Some e, w')
      | (Inr v, w') \<Rightarrow> environ_setitem name v w')"

definition get_variables :: "(string \<rightharpoonup> string) \<Rightarrow> world \<Rightarrow> exn option \<times> world" where
  "get_variables store w =
     seq (seq (seq (seq (publish store ''CLIENT_ID'' w)
                        (publish store ''CLIENT_SECRET''))
                   (publish store ''CONTAINER_NAME''))
              (publish store ''AZURE_STORAGE_CONNECTION_STRING''))
         (publish store ''TENANT_NAME'')"

subsection \<open>Lines 27--45: the group table and the call\<close>

definition groups :: "group list" where
  "groups =
     [[(''id'', ''id_of_aad_group_1''),
       (''name'', ''name_of_manifest_1''),
       (''catalog'', ''catalog_name_1''),
       (''type'', ''type_of_group_1'')],
      [(''id'', ''id_of_aad_group_2''),
       (''name'', ''name_of_manifest_2''),
       (''catalog'', ''catalog_name_2''),
       (''type'', ''type_of_group_2'')]]"

definition mmg_main :: "generator \<Rightarrow> group list \<Rightarrow> pyval option \<Rightarrow> world \<Rightarrow> exn option \<times> world" where
  "mmg_main gen group_list serial_number w =
     (gen group_list serial_number (environ w),
      w\<lparr>journal := journal w @ [MmgMain group_list serial_number]\<rparr>)"

definition dispatch :: "generator \<Rightarrow> trigger \<Rightarrow> world \<Rightarrow> exn option \<times> world" where
  "dispatch gen t w =
     (if webhook t then mmg_main gen groups (serial t) w
      else mmg_main gen groups None w)"

subsection \<open>The script\<close>

definition runbook ::
  "(string \<Rightarrow> exn + pyval) \<Rightarrow> (string \<rightharpoonup> string) \<Rightarrow> generator \<Rightarrow>
   string list \<Rightarrow> (string \<rightharpoonup> string) \<Rightarrow> exn option \<times> world" where
  "runbook loads store gen argv env0 =
     (let w0 = \<lparr>environ = env0, journal = []\<rparr> in
      case parse_argv loads argv of
        Inl e \<Rightarrow> (Some e, w0)
      | Inr t \<Rightarrow> seq (get_variables store w0) (dispatch gen t))"

section \<open>A JSON decoder for the examples\<close>

text \<open>
  The theorems about the runbook hold for every decoder \<open>loads\<close>.  The concrete runs
  below use \<open>json_loads\<close>, which follows the scanner of Python's \<open>json\<close> module
  (\<open>scanstring\<close>, \<open>JSONObject\<close>, \<open>JSONArray\<close>, the number pattern, strict mode) on
  byte strings.  It is that decoder on texts of moderate size and nesting made of
  objects, arrays, strings, integers and the literals, and it departs from it elsewhere:
  a unicode escape above ASCII is reported as \<open>Unsupported\<close>; a number with a fraction
  or an exponent is kept as its spelling, not rounded to a float; Python's limits on
  the digits of an integer and on the depth of nesting are absent.  The recursion runs
  on fuel, twice the length of the text and two more, which is shown below never to
  run out.
\<close>


definition is_ws :: "char \<Rightarrow> bool" where
  "is_ws c \<longleftrightarrow> c = CHR '' '' \<or> c = CHR 0x09 \<or> c = CHR 0x0A \<or> c = CHR 0x0D"

definition skip_ws :: "string \<Rightarrow> string" where
  "skip_ws s = dropWhile is_ws s"

definition is_digit :: "char \<Rightarrow> bool" where
  "is_digit c \<longleftrightarrow> (48::nat) \<le> of_char c \<and> of_char c \<le> (57::nat)"

definition hex_digit :: "char \<Rightarrow> nat option" where
  "hex_digit c =
     (let n = (of_char c :: nat) in
      if 48 \<le> n \<and> n \<le> 57 then Some (n - 48)
      else if 65 \<le> n \<and> n \<le> 70 then Some (n - 55)
      else if 97 \<le> n \<and> n \<le> 102 then Some (n - 87)
      else None)"

definition decode_uXXXX :: "string \<Rightarrow> nat option" where
  "decode_uXXXX s =
     (if length s < 4 then None
      else (case map hex_digit (take 4 s) of
              [Some a, Some b, Some c, Some d] \<Rightarrow> Some (((a * 16 + b) * 16 + c) * 16 + d)
            | _ \<Rightarrow> None))"

definition backslash :: "char \<Rightarrow> char option" where
  "backslash e =
     (if e = CHR 0x22 then Some (CHR 0x22)
      else if e = CHR 0x5C then Some (CHR 0x5C)
      else if e = CHR ''/'' then Some (CHR ''/'')
      else if e = CHR ''b'' then Some (CHR 0x08)
      else if e = CHR ''f'' then Some (CHR 0x0C)
      else if e = CHR ''n'' then Some (CHR 0x0A)
      else if e = CHR ''r'' then Some (CHR 0x0D)
      else if e = CHR ''t'' then Some (CHR 0x09)
      else None)"

text \<open>One more character in front of a scanned string.\<close>

definition push :: "char \<Rightarrow> exn + (string \<times> string) \<Rightarrow> exn + (string \<times> string)" where
  "push c res = (case res of Inl x \<Rightarrow> Inl x | Inr (str, rest) \<Rightarrow> Inr (c # str, rest))"

text \<open>
  \<open>scanstring\<close>, entered after the opening quote: the decoded string and the text after
  the closing quote.  A text of one character can only be the closing quote.
\<close>

function scanstring :: "string \<Rightarrow> exn + (string \<times> string)" where
  "scanstring [] = Inl JSONDecodeError"
| "scanstring [c] = (if c = CHR 0x22 then Inr ([], []) else Inl JSONDecodeError)"
| "scanstring (c # e # r) =
     (if c = CHR 0x22 then Inr ([], e # r)
      else if c = CHR 0x5C then
        (if e = CHR ''u'' then
           (case decode_uXXXX r of
              None \<Rightarrow> Inl JSONDecodeError
            | Some n \<Rightarrow>
                if n < 128 then push (char_of n) (scanstring (drop 4 r))
                else Inl Unsupported)
         else
           (case backslash e of
              None \<Rightarrow> Inl JSONDecodeError
            | Some d \<Rightarrow> push d (scanstring r)))
      else if (of_char c :: nat) < 32 then Inl JSONDecodeError
      else push c (scanstring (e # r)))"
  by pat_completeness auto
termination
  by (relation "measure length") auto

definition digits_value :: "string \<Rightarrow> int" where
  "digits_value ds = foldl (\<lambda>a c. 10 * a + (int (of_char c) - 48)) 0 ds"

text \<open>The number pattern \<open>-?(0|[1-9][0-9]*)([.][0-9]+)?([eE][-+]?[0-9]+)?\<close>, group by group.\<close>

definition scan_sign :: "string \<Rightarrow> string \<times> string" where
  "scan_sign s =
     (case s of
        [] \<Rightarrow> ('''', s)
      | c # cs \<Rightarrow> if c = CHR ''-'' then (''-'', cs) else ('''', s))"

definition scan_int :: "string \<Rightarrow> (string \<times> string) option" where
  "scan_int s =
     (case s of
        [] \<Rightarrow> None
      | c # cs \<Rightarrow>
          if c = CHR ''0'' then Some (''0'', cs)
          else if is_digit c then Some (takeWhile is_digit s, dropWhile is_digit s)
          else None)"

definition scan_frac :: "string \<Rightarrow> string \<times> string" where
  "scan_frac s =
     (case s of
        c # d # cs \<Rightarrow>
          if c = CHR ''.'' \<and> is_digit d
          then (c # takeWhile is_digit (d # cs), dropWhile is_digit (d # cs))
          else ('''', s)
      | _ \<Rightarrow> ('''', s))"

definition scan_exp_sign :: "string \<Rightarrow> string \<times> string" where
  "scan_exp_sign s =
     (case s of
        [] \<Rightarrow> ('''', s)
      | d # r \<Rightarrow> if d = CHR ''+'' \<or> d = CHR ''-'' then ([d], r) else ('''', s))"

definition scan_exp :: "string \<Rightarrow> string \<times> string" where
  "scan_exp s =
     (case s of
        [] \<Rightarrow> ('''', s)
      | c # cs \<Rightarrow>
          if c = CHR ''e'' \<or> c = CHR ''E'' then
            (case scan_exp_sign cs of
               (sg, ds) \<Rightarrow>
                 if ds \<noteq> [] \<and> is_digit (hd ds)
                 then (c # sg @ takeWhile is_digit ds, dropWhile is_digit ds)
                 else ('''', s))
          else ('''', s))"

definition match_number :: "string \<Rightarrow> (pyval \<times> string) option" where
  "match_number s =
     (case scan_sign s of
        (sign, s1) \<Rightarrow>
          (case scan_int s1 of
             None \<Rightarrow> None
           | Some (intpart, s2) \<Rightarrow>
               (case scan_frac s2 of
                  (frac, s3) \<Rightarrow>
                    (case scan_exp s3 of
                       (ex, s4) \<Rightarrow>
                         if frac = [] \<and> ex = []
                         then Some (PyInt ((if sign = [] then 1 else - 1) * digits_value intpart), s4)
                         else Some (PyFloat (sign @ intpart @ frac @ ex), s4)))))"

fun dict_set :: "(string \<times> pyval) list \<Rightarrow> string \<Rightarrow> pyval \<Rightarrow> (string \<times> pyval) list" where
  "dict_set [] k v = [(k, v)]"
| "dict_set ((k', v') # items) k v =
     (if k' = k then (k, v) # items else (k', v') # dict_set items k v)"

text \<open>The values without parts: the three literals, numbers, and Python's extra constants.\<close>

definition scan_atom :: "string \<Rightarrow> exn + (pyval \<times> string)" where
  "scan_atom s =
     (if take 4 s = ''null'' then Inr (PyNone, drop 4 s)
      else if take 4 s = ''true'' then Inr (PyBool True, drop 4 s)
      else if take 5 s = ''false'' then Inr (PyBool False, drop 5 s)
      else
        (case match_number s of
           Some res \<Rightarrow> Inr res
         | None \<Rightarrow>
             if take 3 s = ''NaN'' then Inr (PyFloat ''NaN'', drop 3 s)
             else if take 8 s = ''Infinity'' then Inr (PyFloat ''Infinity'', drop 8 s)
             else if take 9 s = ''-Infinity'' then Inr (PyFloat ''-Infinity'', drop 9 s)
             else Inl JSONDecodeError))"

text \<open>
  \<open>scan_once\<close>, \<open>JSONArray\<close> after its first value's start and \<open>JSONObject\<close> at a key's
  opening quote.  The first argument is the fuel.
\<close>

fun scan_once :: "nat \<Rightarrow> string \<Rightarrow> exn + (pyval \<times> string)"
  and scan_array :: "nat \<Rightarrow> pyval list \<Rightarrow> string \<Rightarrow> exn + (pyval \<times> string)"
  and scan_object :: "nat \<Rightarrow> (string \<times> pyval) list \<Rightarrow> string \<Rightarrow> exn + (pyval \<times> string)" where
  "scan_once 0 s = Inl RecursionError"
| "scan_once (Suc n) s =
     (case s of
        [] \<Rightarrow> Inl JSONDecodeError
      | c # cs \<Rightarrow>
          if c = CHR 0x22 then
            (case scanstring cs of
               Inl e \<Rightarrow> Inl e
             | Inr (str, r) \<Rightarrow> Inr (PyStr str, r))
          else if c = CHR ''{'' then
            (case skip_ws cs of
               [] \<Rightarrow> Inl JSONDecodeError
             | d # r \<Rightarrow> if d = CHR ''}'' then Inr (PyDict [], r) else scan_object n [] (d # r))
          else if c = CHR ''['' then
            (case skip_ws cs of
               [] \<Rightarrow> Inl JSONDecodeError
             | d # r \<Rightarrow> if d = CHR '']'' then Inr (PyList [], r) else scan_array n [] (d # r))
          else scan_atom s)"
| "scan_array 0 acc s = Inl RecursionError"
| "scan_array (Suc n) acc s =
     (case scan_once n s of
        Inl e \<Rightarrow> Inl e
      | Inr (v, r) \<Rightarrow>
          (case skip_ws r of
             [] \<Rightarrow> Inl JSONDecodeError
           | d # r' \<Rightarrow>
               if d = CHR '']'' then Inr (PyList (acc @ [v]), r')
               else if d = CHR '','' then scan_array n (acc @ [v]) (skip_ws r')
               else Inl JSONDecodeError))"
| "scan_object 0 acc s = Inl RecursionError"
| "scan_object (Suc n) acc s =
     (case s of
        [] \<Rightarrow> Inl JSONDecodeError
      | q # cs \<Rightarrow>
          if q \<noteq> CHR 0x22 then Inl JSONDecodeError
          else
            (case scanstring cs of
               Inl e \<Rightarrow> Inl e
             | Inr (key, r) \<Rightarrow>
                 (case skip_ws r of
                    [] \<Rightarrow> Inl JSONDecodeError
                  | d # r' \<Rightarrow>
                      if d \<noteq> CHR '':'' then Inl JSONDecodeError
                      else
                        (case scan_once n (skip_ws r') of
                           Inl e \<Rightarrow> Inl e
                         | Inr (v, r2) \<Rightarrow>
                             (case skip_ws r2 of
                                [] \<Rightarrow> Inl JSONDecodeError
                              | d2 # r3 \<Rightarrow>
                                  if d2 = CHR ''}'' then Inr (PyDict (dict_set acc key v), r3)
                                  else if d2 = CHR '','' then scan_object n (dict_set acc key v) (skip_ws r3)
                                  else Inl JSONDecodeError)))))"

text \<open>A scan that did not run out of fuel and left no more than \<open>L\<close> characters.\<close>

definition bounded :: "nat \<Rightarrow> exn + (pyval \<times> string) \<Rightarrow> bool" where
  "bounded L res = (case res of Inl e \<Rightarrow> e \<noteq> RecursionError | Inr (v, r) \<Rightarrow> length r \<le> L)"

definition json_loads :: "string \<Rightarrow> exn + pyval" where
  "json_loads s =
     (case scan_once (2 * length s + 2) (skip_ws s) of
        Inl e \<Rightarrow> Inl e
      | Inr (v, r) \<Rightarrow> if skip_ws r = [] then Inr v else Inl JSONDecodeError)"

section \<open>Vocabulary of the statements\<close>

definition secret_names :: "string list" where
  "secret_names =
     [''CLIENT_ID'', ''CLIENT_SECRET'', ''CONTAINER_NAME'',
      ''AZURE_STORAGE_CONNECTION_STRING'', ''TENANT_NAME'']"

text \<open>The five assignments as a loop over the names, for induction.\<close>

fun publish_all :: "(string \<rightharpoonup> string) \<Rightarrow> string list \<Rightarrow> world \<Rightarrow> exn option \<times> world" where
  "publish_all store [] w = (None, w)"
| "publish_all store (n # ns) w = seq (publish store n w) (publish_all store ns)"

text \<open>
  The generator calls of a journal, the names it looked up, the assignments it made to
  the environment, and its store traffic.
\<close>

fun calls :: "event list \<Rightarrow> (group list \<times> pyval option) list" where
  "calls [] = []"
| "calls (MmgMain g s # es) = (g, s) # calls es"
| "calls (e # es) = calls es"

fun lookups :: "event list \<Rightarrow> string list" where
  "lookups [] = []"
| "lookups (GetVariable n r # es) = n # lookups es"
| "lookups (e # es) = lookups es"

fun assignments :: "event list \<Rightarrow> (string \<times> string) list" where
  "assignments [] = []"
| "assignments (SetEnviron k v # es) = (k, v) # assignments es"
| "assignments (e # es) = assignments es"

fun is_call :: "event \<Rightarrow> bool" where
  "is_call (MmgMain g s) = True"
| "is_call e = False"

definition store_events :: "event list \<Rightarrow> event list" where
  "store_events es = filter (\<lambda>e. \<not> is_call e) es"

text \<open>A successful lookup of \<open>n\<close> followed at once by the assignment of its value.\<close>

definition lookup_then_set :: "(string \<rightharpoonup> string) \<Rightarrow> string \<Rightarrow> event list" where
  "lookup_then_set store n =
     (case store n of
        None \<Rightarrow> []
      | Some v \<Rightarrow> [GetVariable n (Some v), SetEnviron n v])"

text \<open>
  A name whose line does not raise: the store has it, with a value the environment
  accepts.  Otherwise the line raises \<open>raised_at\<close>.
\<close>

definition publishable :: "(string \<rightharpoonup> string) \<Rightarrow> string \<Rightarrow> bool" where
  "publishable store n = (case store n of None \<Rightarrow> False | Some v \<Rightarrow> CHR 0x00 \<notin> set v)"

definition raised_at :: "(string \<rightharpoonup> string) \<Rightarrow> string \<Rightarrow> exn" where
  "raised_at store n = (case store n of None \<Rightarrow> AutomationAssetNotFound n | Some v \<Rightarrow> ValueError)"

text \<open>
  The specification's reading of line 15, for comparison with \<open>str_replace\<close>:
  strip the literal when the field starts with it, and touch nothing else.
\<close>

definition removeprefix :: "string \<Rightarrow> string \<Rightarrow> string" where
  "removeprefix p s = (if take (length p) s = p then drop (length p) s else s)"

text \<open>Collaborators of the concrete runs.\<close>

definition example_store :: "string \<rightharpoonup> string" where
  "example_store =
     [''CLIENT_ID'' \<mapsto> ''app-01'',
      ''CLIENT_SECRET'' \<mapsto> ''s3cret'',
      ''CONTAINER_NAME'' \<mapsto> ''munki'',
      ''AZURE_STORAGE_CONNECTION_STRING'' \<mapsto> ''AccountName=repo'',
      ''TENANT_NAME'' \<mapsto> ''contoso'']"

definition quiet :: generator where
  "quiet group_list serial_number env = None"

definition empty_store :: "string \<rightharpoonup> string" where
  "empty_store = Map.empty"

definition partial_store :: "string \<rightharpoonup> string" where
  "partial_store = [''CLIENT_ID'' \<mapsto> ''app-01'', ''CLIENT_SECRET'' \<mapsto> ''s3cret'']"

definition empty_environ :: "string \<rightharpoonup> string" where
  "empty_environ = Map.empty"

definition stale_environ :: "string \<rightharpoonup> string" where
  "stale_environ = [''TENANT_NAME'' \<mapsto> ''fabrikam'', ''CLIENT_ID'' \<mapsto> ''app-00'']"

text \<open>The full store with one value the environment rejects.\<close>

definition nul_store :: "string \<rightharpoonup> string" where
  "nul_store = example_store(''TENANT_NAME'' \<mapsto> [CHR ''a'', CHR 0x00, CHR ''b''])"

definition nul_first_store :: "string \<rightharpoonup> string" where
  "nul_first_store = example_store(''CLIENT_ID'' \<mapsto> [CHR ''a'', CHR 0x00, CHR ''b''])"

section \<open>Facts about the model\<close>

subsection \<open>Sequencing and the five assignments\<close>

lemma seq_assoc: "seq (seq a f) g = seq a (\<lambda>w. seq (f w) g)"
proof (cases a)
  case (Pair x w)
  then show ?thesis by (cases x) simp_all
qed

lemma seq_return: "seq a (\<lambda>w. (None, w)) = a"
proof (cases a)
  case (Pair x w)
  then show ?thesis by (cases x) simp_all
qed

lemma publish_all_Nil: "publish_all store [] = (\<lambda>w. (None, w))"
  by (rule ext) simp

lemma publish_all_Cons:
  "publish_all store (n # ns) = (\<lambda>w. seq (publish store n w) (publish_all store ns))"
  by (rule ext) simp

lemma get_variables_publish_all: "get_variables store w = publish_all store secret_names w"
  unfolding get_variables_def secret_names_def
  by (simp only: publish_all_Cons publish_all_Nil seq_assoc seq_return)

lemma publishable_present: "publishable store n \<Longrightarrow> store n \<noteq> None"
  by (auto simp: publishable_def split: option.splits)

lemma publish_publishable:
  "store n = Some v \<Longrightarrow> CHR 0x00 \<notin> set v \<Longrightarrow>
   publish store n w =
     (None, w\<lparr>environ := (environ w)(n \<mapsto> v),
              journal := journal w @ [GetVariable n (Some v), SetEnviron n v]\<rparr>)"
  by (simp add: publish_def get_automation_variable_def environ_setitem_def)

lemma publish_stops:
  "\<not> publishable store n \<Longrightarrow>
   publish store n w =
     (Some (raised_at store n), w\<lparr>journal := journal w @ [GetVariable n (store n)]\<rparr>)"
  by (cases "store n")
    (simp_all add: publishable_def raised_at_def publish_def get_automation_variable_def
      environ_setitem_def)

lemma publish_all_present:
  "\<forall>n\<in>set ns. publishable store n \<Longrightarrow>
   publish_all store ns w =
     (None, w\<lparr>environ := override_on (environ w) store (set ns),
              journal := journal w @ concat (map (lookup_then_set store) ns)\<rparr>)"
proof (induction ns arbitrary: w)
  case Nil
  then show ?case by simp
next
  case (Cons n ns)
  then obtain v where v: "store n = Some v" "CHR 0x00 \<notin> set v"
    by (auto simp: publishable_def split: option.splits)
  have env: "override_on (\<lambda>a. if a = n then Some v else environ w a) store (set ns) =
             override_on (environ w) store (insert n (set ns))"
    using v by (auto simp: fun_eq_iff override_on_def)
  from Cons.prems have rest: "\<forall>m\<in>set ns. publishable store m" by simp
  show ?case
    using env
    by (simp add: publish_publishable [of store n v] Cons.IH [OF rest] lookup_then_set_def v)
qed

lemma publish_all_stops:
  "\<forall>n\<in>set pre. publishable store n \<Longrightarrow> \<not> publishable store x \<Longrightarrow>
   publish_all store (pre @ x # post) w =
     (Some (raised_at store x),
      w\<lparr>environ := override_on (environ w) store (set pre),
        journal := journal w @ concat (map (lookup_then_set store) pre) @
                   [GetVariable x (store x)]\<rparr>)"
proof (induction pre arbitrary: w)
  case Nil
  then show ?case by (simp add: publish_stops)
next
  case (Cons n pre)
  then obtain v where v: "store n = Some v" "CHR 0x00 \<notin> set v"
    by (auto simp: publishable_def split: option.splits)
  have env: "override_on (\<lambda>a. if a = n then Some v else environ w a) store (set pre) =
             override_on (environ w) store (insert n (set pre))"
    using v by (auto simp: fun_eq_iff override_on_def)
  from Cons.prems have rest: "\<forall>m\<in>set pre. publishable store m" by simp
  show ?case
    using env
    by (simp add: publish_publishable [of store n v] Cons.IH [OF rest Cons.prems(2)]
        lookup_then_set_def v)
qed

lemma first_unpublishable:
  assumes "\<not> (\<forall>n\<in>set ns. publishable store n)"
  obtains pre x post where "ns = pre @ x # post" "\<forall>n\<in>set pre. publishable store n"
    "\<not> publishable store x"
proof -
  from assms have "\<exists>n\<in>set ns. \<not> publishable store n" by simp
  then obtain pre x post where "ns = pre @ x # post" "\<not> publishable store x"
    "\<forall>n\<in>set pre. \<not> \<not> publishable store n"
    by (auto dest!: split_list_first_prop)
  then show thesis using that by blast
qed

subsection \<open>Journals\<close>

lemma calls_append: "calls (es @ fs) = calls es @ calls fs"
  by (induction es rule: calls.induct) simp_all

lemma lookups_append: "lookups (es @ fs) = lookups es @ lookups fs"
  by (induction es rule: lookups.induct) simp_all

lemma calls_lookup_then_set: "calls (concat (map (lookup_then_set store) ns)) = []"
  by (induction ns) (simp_all add: calls_append lookup_then_set_def split: option.splits)

lemma lookups_lookup_then_set:
  "\<forall>n\<in>set ns. store n \<noteq> None \<Longrightarrow> lookups (concat (map (lookup_then_set store) ns)) = ns"
  by (induction ns) (auto simp: lookup_then_set_def)

lemma store_events_lookup_then_set:
  "store_events (concat (map (lookup_then_set store) ns)) = concat (map (lookup_then_set store) ns)"
  by (induction ns) (simp_all add: store_events_def lookup_then_set_def split: option.splits)

subsection \<open>The ways a run can go\<close>

lemma runbook_parse_error:
  "parse_argv loads argv = Inl e \<Longrightarrow>
   runbook loads store gen argv env0 = (Some e, \<lparr>environ = env0, journal = []\<rparr>)"
  by (simp add: runbook_def)

lemma runbook_stopped:
  assumes "parse_argv loads argv = Inr t"
    and "secret_names = pre @ x # post"
    and "\<forall>n\<in>set pre. publishable store n"
    and "\<not> publishable store x"
  shows "runbook loads store gen argv env0 =
           (Some (raised_at store x),
            \<lparr>environ = (override_on env0 store (set pre)),
              journal = concat (map (lookup_then_set store) pre) @ [GetVariable x (store x)]\<rparr>)"
  using assms(1) publish_all_stops [OF assms(3,4), of post "\<lparr>environ = env0, journal = []\<rparr>"]
  by (simp add: runbook_def get_variables_publish_all assms(2))

lemma runbook_lookup_error:
  assumes "parse_argv loads argv = Inr t"
    and "secret_names = pre @ x # post"
    and "\<forall>n\<in>set pre. publishable store n"
    and "store x = None"
  shows "runbook loads store gen argv env0 =
           (Some (AutomationAssetNotFound x),
            \<lparr>environ = (override_on env0 store (set pre)),
              journal = concat (map (lookup_then_set store) pre) @ [GetVariable x None]\<rparr>)"
proof -
  from assms(4) have "\<not> publishable store x" and "raised_at store x = AutomationAssetNotFound x"
    by (simp_all add: publishable_def raised_at_def)
  with runbook_stopped [OF assms(1,2,3)] assms(4) show ?thesis
    by simp
qed

lemma runbook_dispatched:
  assumes "parse_argv loads argv = Inr t"
    and "\<forall>n\<in>set secret_names. publishable store n"
  shows "runbook loads store gen argv env0 =
           (gen groups (if webhook t then serial t else None)
              (override_on env0 store (set secret_names)),
            \<lparr>environ = (override_on env0 store (set secret_names)),
              journal = concat (map (lookup_then_set store) secret_names) @
                        [MmgMain groups (if webhook t then serial t else None)]\<rparr>)"
  using assms(1) publish_all_present [OF assms(2), of "\<lparr>environ = env0, journal = []\<rparr>"]
  by (simp add: runbook_def get_variables_publish_all dispatch_def mmg_main_def)

subsection \<open>The decoder's fuel never runs out\<close>

lemma length_skip_ws: "length (skip_ws s) \<le> length s"
  by (simp add: skip_ws_def length_dropWhile_le)

lemma skip_ws_Cons: "skip_ws s = d # r \<Longrightarrow> Suc (length r) \<le> length s"
  using length_skip_ws [of s] by simp

lemma push_Inr: "push c res = Inr (str, r) \<longleftrightarrow> (\<exists>t. res = Inr (t, r) \<and> str = c # t)"
  by (auto simp: push_def split: sum.splits)

lemma push_Inl: "push c res = Inl e \<longleftrightarrow> res = Inl e"
  by (auto simp: push_def split: sum.splits)

lemma scanstring_rest:
  "scanstring s = Inr (str, r) \<Longrightarrow> length r < length s"
proof (induction s arbitrary: str r rule: scanstring.induct)
  case 1
  then show ?case by simp
next
  case (2 c)
  then show ?case by (simp split: if_splits)
next
  case (3 c e r0)
  show ?case
  proof (cases "c = CHR 0x22")
    case True
    with "3.prems" show ?thesis by simp
  next
    case quote: False
    show ?thesis
    proof (cases "c = CHR 0x5C")
      case True
      show ?thesis
      proof (cases "e = CHR ''u''")
        case u: True
        from "3.prems" quote True u obtain n t where n: "decode_uXXXX r0 = Some n" "n < 128"
          and "scanstring (drop 4 r0) = Inr (t, r)"
          by (auto simp: push_Inr split: option.splits if_splits)
        with "3.IH"(1) [OF quote True u n] have "length r < length (drop 4 r0)"
          by simp
        then show ?thesis by simp
      next
        case False
        from "3.prems" quote True False obtain d t where d: "backslash e = Some d"
          and "scanstring r0 = Inr (t, r)"
          by (auto simp: push_Inr split: option.splits)
        with "3.IH"(2) [OF quote True False d] have "length r < length r0"
          by simp
        then show ?thesis by simp
      qed
    next
      case False
      from "3.prems" quote False obtain t where ctl: "\<not> (of_char c :: nat) < 32"
        and "scanstring (e # r0) = Inr (t, r)"
        by (auto simp: push_Inr split: if_splits)
      with "3.IH"(3) [OF quote False ctl] have "length r < length (e # r0)"
        by simp
      then show ?thesis by simp
    qed
  qed
qed

lemma scanstring_no_recursion_error: "scanstring s \<noteq> Inl RecursionError"
  by (induction s rule: scanstring.induct) (auto simp: push_Inl split: option.splits)

lemma scan_sign_rest: "scan_sign s = (sg, r) \<Longrightarrow> length r \<le> length s"
  by (auto simp: scan_sign_def split: list.splits if_splits)

lemma scan_int_rest: "scan_int s = Some (ds, r) \<Longrightarrow> length r \<le> length s"
  by (auto simp: scan_int_def split: list.splits if_splits
      intro: le_trans [OF length_dropWhile_le] le_SucI)

lemma scan_frac_rest: "scan_frac s = (ds, r) \<Longrightarrow> length r \<le> length s"
  by (auto simp: scan_frac_def split: list.splits if_splits
      intro: le_trans [OF length_dropWhile_le] le_SucI)

lemma scan_exp_sign_rest: "scan_exp_sign s = (sg, r) \<Longrightarrow> length r \<le> length s"
  by (auto simp: scan_exp_sign_def split: list.splits if_splits)

lemma scan_exp_rest:
  assumes "scan_exp s = (ds, r)"
  shows "length r \<le> length s"
proof (cases s)
  case Nil
  with assms show ?thesis
    by (simp add: scan_exp_def)
next
  case (Cons c cs)
  obtain sg t where sign: "scan_exp_sign cs = (sg, t)"
    by (cases "scan_exp_sign cs")
  then have "length t \<le> length cs"
    by (rule scan_exp_sign_rest)
  moreover have "length (dropWhile is_digit t) \<le> length t"
    by (rule length_dropWhile_le)
  ultimately show ?thesis
    using assms Cons sign by (auto simp: scan_exp_def split: if_splits)
qed

lemma match_number_rest:
  assumes "match_number s = Some (v, r)"
  shows "length r \<le> length s"
proof -
  obtain sg s1 where a: "scan_sign s = (sg, s1)"
    by (cases "scan_sign s")
  from assms a obtain ip s2 where b: "scan_int s1 = Some (ip, s2)"
    by (cases "scan_int s1") (auto simp: match_number_def)
  obtain fr s3 where c: "scan_frac s2 = (fr, s3)"
    by (cases "scan_frac s2")
  obtain ex s4 where d: "scan_exp s3 = (ex, s4)"
    by (cases "scan_exp s3")
  from assms a b c d have "r = s4"
    by (auto simp: match_number_def split: if_splits)
  with scan_sign_rest [OF a] scan_int_rest [OF b] scan_frac_rest [OF c] scan_exp_rest [OF d]
  show ?thesis by simp
qed

lemma bounded_Inl [simp]: "bounded L (Inl e) \<longleftrightarrow> e \<noteq> RecursionError"
  by (simp add: bounded_def)

lemma bounded_Inr [simp]: "bounded L (Inr (v, r)) \<longleftrightarrow> length r \<le> L"
  by (simp add: bounded_def)

lemma bounded_mono: "bounded L res \<Longrightarrow> L \<le> L' \<Longrightarrow> bounded L' res"
  by (cases res) auto

lemma bounded_scan_atom: "bounded (length s) (scan_atom s)"
proof (cases "match_number s")
  case None
  then show ?thesis by (simp add: scan_atom_def)
next
  case (Some res)
  obtain v r where "res = (v, r)" by (cases res)
  with Some match_number_rest [of s v r] show ?thesis
    by (simp add: scan_atom_def)
qed

lemma scan_fuel:
  "(2 * length s + 1 \<le> n \<longrightarrow> bounded (length s) (scan_once n s)) \<and>
   (2 * length s + 2 \<le> n \<longrightarrow> bounded (length s) (scan_array n acc s)) \<and>
   (2 * length s + 2 \<le> n \<longrightarrow> bounded (length s) (scan_object n kvs s))"
proof (induction n arbitrary: s acc kvs)
  case 0
  show ?case by simp
next
  case (Suc n)
  have once: "bounded (length t) (scan_once n t)" if "2 * length t + 1 \<le> n" for t
    using Suc.IH [of t] that by blast
  have array: "bounded (length t) (scan_array n a t)" if "2 * length t + 2 \<le> n" for t a
    using Suc.IH [of t a] that by blast
  have object: "bounded (length t) (scan_object n a t)" if "2 * length t + 2 \<le> n" for t a
    using Suc.IH [of t _ a] that by blast
  have A: "bounded (length s) (scan_once (Suc n) s)" if fuel: "2 * length s + 1 \<le> Suc n"
  proof (cases s)
    case Nil
    then show ?thesis by simp
  next
    case (Cons c cs)
    consider (str) "c = CHR 0x22"
      | (obj) "c \<noteq> CHR 0x22" "c = CHR ''{''"
      | (arr) "c \<noteq> CHR 0x22" "c \<noteq> CHR ''{''" "c = CHR ''[''"
      | (atom) "c \<noteq> CHR 0x22" "c \<noteq> CHR ''{''" "c \<noteq> CHR ''[''"
      by blast
    then show ?thesis
    proof cases
      case str
      show ?thesis
      proof (cases "scanstring cs")
        case (Inl e)
        with str Cons scanstring_no_recursion_error [of cs] show ?thesis by simp
      next
        case (Inr p)
        obtain k r where "p = (k, r)" by (cases p)
        with Inr str Cons scanstring_rest [of cs k r] show ?thesis by simp
      qed
    next
      case obj
      show ?thesis
      proof (cases "skip_ws cs")
        case Nil
        with obj Cons show ?thesis by simp
      next
        case inner: (Cons d r)
        have len: "Suc (length r) \<le> length cs"
          using inner by (rule skip_ws_Cons)
        show ?thesis
        proof (cases "d = CHR ''}''")
          case True
          with obj Cons inner len show ?thesis by simp
        next
          case False
          have "bounded (length (d # r)) (scan_object n [] (d # r))"
            using len fuel Cons by (intro object) simp
          moreover have "length (d # r) \<le> length s"
            using len Cons by simp
          ultimately have "bounded (length s) (scan_object n [] (d # r))"
            by (rule bounded_mono)
          with obj Cons inner False show ?thesis by simp
        qed
      qed
    next
      case arr
      show ?thesis
      proof (cases "skip_ws cs")
        case Nil
        with arr Cons show ?thesis by simp
      next
        case inner: (Cons d r)
        have len: "Suc (length r) \<le> length cs"
          using inner by (rule skip_ws_Cons)
        show ?thesis
        proof (cases "d = CHR '']''")
          case True
          with arr Cons inner len show ?thesis by simp
        next
          case False
          have "bounded (length (d # r)) (scan_array n [] (d # r))"
            using len fuel Cons by (intro array) simp
          moreover have "length (d # r) \<le> length s"
            using len Cons by simp
          ultimately have "bounded (length s) (scan_array n [] (d # r))"
            by (rule bounded_mono)
          with arr Cons inner False show ?thesis by simp
        qed
      qed
    next
      case atom
      with Cons bounded_scan_atom [of s] show ?thesis by simp
    qed
  qed
  have B: "bounded (length s) (scan_array (Suc n) acc s)" if fuel: "2 * length s + 2 \<le> Suc n"
  proof (cases "scan_once n s")
    case (Inl e)
    with once [of s] fuel show ?thesis by simp
  next
    case (Inr p)
    obtain v r where p: "p = (v, r)" by (cases p)
    with Inr once [of s] fuel have r: "length r \<le> length s" by simp
    show ?thesis
    proof (cases "skip_ws r")
      case Nil
      with Inr p show ?thesis by simp
    next
      case (Cons d r')
      have len: "Suc (length r') \<le> length r"
        using Cons by (rule skip_ws_Cons)
      consider (close) "d = CHR '']''" | (comma) "d \<noteq> CHR '']''" "d = CHR '',''"
        | (other) "d \<noteq> CHR '']''" "d \<noteq> CHR '',''"
        by blast
      then show ?thesis
      proof cases
        case close
        with Inr p Cons len r show ?thesis by simp
      next
        case comma
        have "length (skip_ws r') \<le> length r'"
          by (rule length_skip_ws)
        with len r fuel have short: "2 * length (skip_ws r') + 2 \<le> n" "length (skip_ws r') \<le> length s"
          by simp_all
        have "bounded (length (skip_ws r')) (scan_array n (acc @ [v]) (skip_ws r'))"
          using short(1) by (rule array)
        then have "bounded (length s) (scan_array n (acc @ [v]) (skip_ws r'))"
          using short(2) by (rule bounded_mono)
        with Inr p Cons comma show ?thesis by simp
      next
        case other
        with Inr p Cons show ?thesis by simp
      qed
    qed
  qed
  have C: "bounded (length s) (scan_object (Suc n) kvs s)" if fuel: "2 * length s + 2 \<le> Suc n"
  proof (cases s)
    case Nil
    then show ?thesis by simp
  next
    case outer: (Cons q cs)
    show ?thesis
    proof (cases "q = CHR 0x22")
      case False
      with outer show ?thesis by simp
    next
      case quote: True
      show ?thesis
      proof (cases "scanstring cs")
        case (Inl e)
        with outer quote scanstring_no_recursion_error [of cs] show ?thesis by simp
      next
        case key: (Inr p)
        obtain k r where p: "p = (k, r)" by (cases p)
        with key have r: "length r < length cs"
          by (intro scanstring_rest [of cs k r]) simp
        show ?thesis
        proof (cases "skip_ws r")
          case Nil
          with outer quote key p show ?thesis by simp
        next
          case colon: (Cons d r')
          have r': "Suc (length r') \<le> length r"
            using colon by (rule skip_ws_Cons)
          show ?thesis
          proof (cases "d = CHR '':''")
            case False
            with outer quote key p colon show ?thesis by simp
          next
            case True
            have "length (skip_ws r') \<le> length r'"
              by (rule length_skip_ws)
            with r r' fuel outer have short: "2 * length (skip_ws r') + 1 \<le> n"
              "length (skip_ws r') \<le> length cs"
              by simp_all
            have val: "bounded (length (skip_ws r')) (scan_once n (skip_ws r'))"
              using short(1) by (rule once)
            show ?thesis
            proof (cases "scan_once n (skip_ws r')")
              case (Inl e)
              with val outer quote key p colon True show ?thesis by simp
            next
              case found: (Inr p2)
              obtain v r2 where p2: "p2 = (v, r2)" by (cases p2)
              with found val short(2) have r2: "length r2 \<le> length cs" by simp
              show ?thesis
              proof (cases "skip_ws r2")
                case Nil
                with outer quote key p colon True found p2 show ?thesis by simp
              next
                case sep: (Cons d2 r3)
                have r3: "Suc (length r3) \<le> length r2"
                  using sep by (rule skip_ws_Cons)
                consider (close) "d2 = CHR ''}''" | (comma) "d2 \<noteq> CHR ''}''" "d2 = CHR '',''"
                  | (other) "d2 \<noteq> CHR ''}''" "d2 \<noteq> CHR '',''"
                  by blast
                then show ?thesis
                proof cases
                  case close
                  with outer quote key p colon True found p2 sep r3 r2 show ?thesis by simp
                next
                  case comma
                  have "length (skip_ws r3) \<le> length r3"
                    by (rule length_skip_ws)
                  with r3 r2 fuel outer have short3: "2 * length (skip_ws r3) + 2 \<le> n"
                    "length (skip_ws r3) \<le> length s"
                    by simp_all
                  have "bounded (length (skip_ws r3)) (scan_object n (dict_set kvs k v) (skip_ws r3))"
                    using short3(1) by (rule object)
                  then have "bounded (length s) (scan_object n (dict_set kvs k v) (skip_ws r3))"
                    using short3(2) by (rule bounded_mono)
                  with outer quote key p colon True found p2 sep comma show ?thesis by simp
                next
                  case other
                  with outer quote key p colon True found p2 sep show ?thesis by simp
                qed
              qed
            qed
          qed
        qed
      qed
    qed
  qed
  from A B C show ?case by blast
qed

lemma json_loads_no_recursion_error: "json_loads s \<noteq> Inl RecursionError"
proof -
  have "2 * length (skip_ws s) + 1 \<le> 2 * length s + 2"
    using length_skip_ws [of s] by simp
  with scan_fuel [of "skip_ws s" "2 * length s + 2"]
  have "bounded (length (skip_ws s)) (scan_once (2 * length s + 2) (skip_ws s))"
    by blast
  then show ?thesis
    by (auto simp: json_loads_def bounded_def split: sum.splits)
qed

subsection \<open>Replacing and stripping\<close>

lemma str_replace_Nil: "old \<noteq> [] \<Longrightarrow> str_replace old new [] = []"
  by (simp add: str_replace.simps)

lemma str_replace_hit:
  "old \<noteq> [] \<Longrightarrow> take (length old) s = old \<Longrightarrow>
   str_replace old new s = new @ str_replace old new (drop (length old) s)"
  by (subst str_replace.simps) auto

lemma str_replace_miss:
  "old \<noteq> [] \<Longrightarrow> take (length old) (c # cs) \<noteq> old \<Longrightarrow>
   str_replace old new (c # cs) = c # str_replace old new cs"
  by (subst str_replace.simps) simp

lemma str_replace_without_occurrence:
  "old \<noteq> [] \<Longrightarrow> \<not> str_contains old s \<Longrightarrow> str_replace old new s = s"
  by (induction s) (simp_all add: str_replace_Nil str_replace_miss)

lemma str_replace_not_longer:
  assumes "old \<noteq> []"
  shows "length (str_replace old [] s) \<le> length s"
proof (induction "length s" arbitrary: s rule: less_induct)
  case less
  show ?case
  proof (cases s)
    case Nil
    with assms show ?thesis by (simp add: str_replace_Nil)
  next
    case (Cons c cs)
    show ?thesis
    proof (cases "take (length old) s = old")
      case True
      have "length (drop (length old) s) < length s"
        using assms Cons by simp
      then have "length (str_replace old [] (drop (length old) s)) \<le> length (drop (length old) s)"
        by (rule less.hyps)
      then show ?thesis
        using assms True by (simp add: str_replace_hit)
    next
      case False
      have "length (str_replace old [] cs) \<le> length cs"
        using Cons by (intro less.hyps) simp
      then show ?thesis
        using assms False Cons by (simp add: str_replace_miss)
    qed
  qed
qed

lemma str_replace_with_occurrence:
  "old \<noteq> [] \<Longrightarrow> str_contains old s \<Longrightarrow> length (str_replace old [] s) < length s"
proof (induction s)
  case Nil
  then show ?case by simp
next
  case (Cons c cs)
  show ?case
  proof (cases "take (length old) (c # cs) = old")
    case True
    have "length (str_replace old [] (drop (length old) (c # cs))) \<le> length (drop (length old) (c # cs))"
      using Cons.prems(1) by (rule str_replace_not_longer)
    moreover have "length (drop (length old) (c # cs)) < length (c # cs)"
      using Cons.prems(1) by simp
    moreover have "str_replace old [] (c # cs) = str_replace old [] (drop (length old) (c # cs))"
      using Cons.prems(1) True by (simp add: str_replace_hit del: drop_Suc_Cons)
    ultimately show ?thesis
      by (simp only: )
  next
    case False
    with Cons show ?thesis by (simp add: str_replace_miss)
  qed
qed

lemma str_replace_unchanged_iff:
  assumes "old \<noteq> []"
  shows "str_replace old [] s = s \<longleftrightarrow> \<not> str_contains old s"
proof
  assume "str_replace old [] s = s"
  then have "\<not> length (str_replace old [] s) < length s" by simp
  with assms show "\<not> str_contains old s"
    using str_replace_with_occurrence by blast
next
  assume "\<not> str_contains old s"
  with assms show "str_replace old [] s = s"
    by (rule str_replace_without_occurrence)
qed

lemma str_replace_removeprefix:
  assumes "old \<noteq> []"
  shows "str_replace old [] s = str_replace old [] (removeprefix old s)"
  using assms by (simp add: removeprefix_def str_replace_hit)

lemma str_replace_agrees_with_removeprefix_iff:
  assumes "old \<noteq> []"
  shows "str_replace old [] s = removeprefix old s \<longleftrightarrow> \<not> str_contains old (removeprefix old s)"
  using str_replace_removeprefix [OF assms, of s] str_replace_unchanged_iff [OF assms, of "removeprefix old s"]
  by simp

lemma w_data_fields:
  "2 \<le> length (str_split CHR '','' arg) \<Longrightarrow>
   w_data arg = Inr (str_replace ''RequestBody:'' '''' (str_split CHR '','' arg ! 1))"
  by (simp add: w_data_def Let_def)

lemma w_data_too_few:
  "length (str_split CHR '','' arg) < 2 \<Longrightarrow> w_data arg = Inl IndexError"
  by (simp add: w_data_def Let_def)

subsection \<open>Reading a run off its journal\<close>

lemma assignments_append: "assignments (es @ fs) = assignments es @ assignments fs"
  by (induction es rule: assignments.induct) simp_all

lemma assignments_lookup_then_set:
  "\<forall>n\<in>set ns. store n \<noteq> None \<Longrightarrow>
   assignments (concat (map (lookup_then_set store) ns)) = map (\<lambda>n. (n, the (store n))) ns"
  by (induction ns) (auto simp: lookup_then_set_def)

lemma no_failed_lookup_in_lookup_then_set:
  "GetVariable n None \<notin> set (concat (map (lookup_then_set store) ns))"
  by (auto simp: lookup_then_set_def split: option.splits)

lemma no_call_in_lookup_then_set:
  "MmgMain g s \<notin> set (concat (map (lookup_then_set store) ns))"
  by (auto simp: lookup_then_set_def split: option.splits)

lemma distinct_secret_names: "distinct secret_names"
  by (simp add: secret_names_def)

lemma length_secret_names: "length secret_names = 5"
  by (simp add: secret_names_def)

lemma position_in_distinct:
  assumes "distinct xs" and "xs = pre @ x # post" and "i < length xs" and "xs ! i = x"
  shows "i = length pre"
proof -
  have lt: "length pre < length xs" and at: "xs ! length pre = x"
    using assms(2) by simp_all
  from at assms(4) have "xs ! i = xs ! length pre" by simp
  then show ?thesis
    using nth_eq_iff_index_eq [OF assms(1,3) lt] by simp
qed

lemma parse_argv_absent:
  "length argv \<le> 1 \<Longrightarrow> parse_argv loads argv = Inr \<lparr>webhook = False, serial = None\<rparr>"
  by (simp add: parse_argv_def)

lemma parse_argv_webhook:
  "1 < length argv \<Longrightarrow> w_data (argv ! 1) = Inr w \<Longrightarrow> loads w = Inr (PyDict items) \<Longrightarrow>
   map_of items ''serial'' = Some S \<Longrightarrow>
   parse_argv loads argv = Inr \<lparr>webhook = True, serial = Some S\<rparr>"
  by (simp add: parse_argv_def)

lemma getitem_fails:
  "\<not> (\<exists>items S. v = PyDict items \<and> map_of items key = Some S) \<Longrightarrow>
   getitem v key = Inl (KeyError key) \<or> getitem v key = Inl TypeError"
  by (cases v) (auto split: option.splits)

lemma runbook_failed_lookup:
  assumes "GetVariable n None \<in> set (journal (snd (runbook loads store gen argv env0)))"
  obtains t pre post where "parse_argv loads argv = Inr t" "secret_names = pre @ n # post"
    "\<forall>m\<in>set pre. publishable store m" "store n = None"
proof (cases "parse_argv loads argv")
  case (Inl e)
  with assms show thesis by (simp add: runbook_parse_error)
next
  case (Inr t)
  show thesis
  proof (cases "\<forall>m\<in>set secret_names. publishable store m")
    case True
    with assms Inr show thesis
      using no_failed_lookup_in_lookup_then_set [of n store secret_names]
      by (simp add: runbook_dispatched)
  next
    case False
    then obtain pre x post where split: "secret_names = pre @ x # post"
      "\<forall>m\<in>set pre. publishable store m" "\<not> publishable store x"
      by (rule first_unpublishable)
    with assms Inr have "n = x \<and> store x = None"
      using no_failed_lookup_in_lookup_then_set [of n store pre]
      by (auto simp: runbook_stopped)
    with Inr split show thesis by (auto intro: that)
  qed
qed

lemma runbook_call:
  assumes "MmgMain g s \<in> set (journal (snd (runbook loads store gen argv env0)))"
  obtains t where "parse_argv loads argv = Inr t" "\<forall>n\<in>set secret_names. publishable store n"
    "g = groups" "s = (if webhook t then serial t else None)"
proof (cases "parse_argv loads argv")
  case (Inl e)
  with assms show thesis by (simp add: runbook_parse_error)
next
  case (Inr t)
  show thesis
  proof (cases "\<forall>m\<in>set secret_names. publishable store m")
    case True
    with assms Inr
    have "g = groups \<and> s = (if webhook t then serial t else None)"
      using no_call_in_lookup_then_set [of g s store secret_names]
      by (simp add: runbook_dispatched)
    with Inr True show thesis by (auto intro: that)
  next
    case False
    then obtain pre x post where split: "secret_names = pre @ x # post"
      "\<forall>m\<in>set pre. publishable store m" "\<not> publishable store x"
      by (rule first_unpublishable)
    with assms Inr show thesis
      using no_call_in_lookup_then_set [of g s store pre]
      by (simp add: runbook_stopped)
  qed
qed

lemma runbook_calls_when_resolved:
  assumes "parse_argv loads argv = Inr t" and "\<forall>n\<in>set secret_names. publishable store n"
  shows "calls (journal (snd (runbook loads store gen argv env0))) =
           [(groups, if webhook t then serial t else None)]"
  using assms by (simp add: runbook_dispatched calls_append calls_lookup_then_set)

lemma runbook_no_call_when_stopped:
  assumes "parse_argv loads argv = Inr t" and "\<not> (\<forall>n\<in>set secret_names. publishable store n)"
  shows "fst (runbook loads store gen argv env0) \<noteq> None \<and>
         calls (journal (snd (runbook loads store gen argv env0))) = []"
proof -
  from assms(2) obtain pre x post where split: "secret_names = pre @ x # post"
    "\<forall>m\<in>set pre. publishable store m" "\<not> publishable store x"
    by (rule first_unpublishable)
  from runbook_stopped [OF assms(1) split] show ?thesis
    by (simp add: calls_append calls_lookup_then_set)
qed

lemma example_store_publishable: "\<forall>n\<in>set secret_names. publishable example_store n"
  by (simp add: secret_names_def example_store_def publishable_def)

section \<open>The properties of the specification\<close>

text \<open>
  C1.  When the argument has at least two comma-separated fields, the second
  field with every occurrence of \<open>RequestBody:\<close> removed decodes to an object whose
  \<open>serial\<close> is \<open>S\<close>, the five lookups succeed and the environment accepts the five
  values (none holds a NUL byte), the run selects the single-device mode and calls the
  generator exactly once, with \<open>serial_number = S\<close> and the whole group table.
\<close>

theorem webhook_run_calls_generator_once:
  assumes "1 < length argv"
    and "2 \<le> length (str_split CHR '','' (argv ! 1))"
    and "loads (str_replace ''RequestBody:'' '''' (str_split CHR '','' (argv ! 1) ! 1)) =
           Inr (PyDict items)"
    and "map_of items ''serial'' = Some S"
    and "\<forall>n\<in>set secret_names. \<exists>v. store n = Some v \<and> CHR 0x00 \<notin> set v"
  shows "parse_argv loads argv = Inr \<lparr>webhook = True, serial = Some S\<rparr> \<and>
         calls (journal (snd (runbook loads store gen argv env0))) = [(groups, Some S)]"
proof -
  have "w_data (argv ! 1) =
          Inr (str_replace ''RequestBody:'' '''' (str_split CHR '','' (argv ! 1) ! 1))"
    using assms(2) by (rule w_data_fields)
  then have parsed: "parse_argv loads argv = Inr \<lparr>webhook = True, serial = Some S\<rparr>"
    using assms(1,3,4) by (simp add: parse_argv_webhook)
  have resolved: "\<forall>n\<in>set secret_names. publishable store n"
    using assms(5) by (auto simp: publishable_def)
  from runbook_calls_when_resolved [OF parsed resolved] parsed show ?thesis
    by simp
qed

theorem webhook_run_calls_generator_once_witness:
  \<open>parse_argv json_loads [''runbook.py'', ''ignored,RequestBody:{"serial":"ABC123"}''] =
     Inr \<lparr>webhook = True, serial = Some (PyStr ''ABC123'')\<rparr> \<and>
   calls (journal (snd (runbook json_loads example_store quiet
     [''runbook.py'', ''ignored,RequestBody:{"serial":"ABC123"}''] empty_environ))) =
     [(groups, Some (PyStr ''ABC123''))] \<and>
   length groups = 2\<close>
proof -
  let ?argv = \<open>[''runbook.py'', ''ignored,RequestBody:{"serial":"ABC123"}'']\<close>
  have present: "1 < length ?argv"
    by simp
  have fields: "2 \<le> length (str_split CHR '','' (?argv ! 1))"
    by code_simp
  have decoded: "json_loads (str_replace ''RequestBody:'' '''' (str_split CHR '','' (?argv ! 1) ! 1)) =
                   Inr (PyDict [(''serial'', PyStr ''ABC123'')])"
    by code_simp
  have found: "map_of [(''serial'', PyStr ''ABC123'')] ''serial'' = Some (PyStr ''ABC123'')"
    by simp
  have resolved: "\<forall>n\<in>set secret_names. \<exists>v. example_store n = Some v \<and> CHR 0x00 \<notin> set v"
    by (simp add: secret_names_def example_store_def)
  have two: "length groups = 2"
    by (simp add: groups_def)
  from webhook_run_calls_generator_once
    [of ?argv json_loads "[(''serial'', PyStr ''ABC123'')]" "PyStr ''ABC123''" example_store
      quiet empty_environ, OF present fields decoded found resolved] two
  show ?thesis by simp
qed

text \<open>
  Stripping only the prefix gives another serial than the one the generator receives when
  the literal occurs again inside the field; with an empty store the run of the
  specification's example never reaches the call; and with five successful lookups, the
  last of a value holding a NUL byte, it ends at line 25 without a call.
\<close>

theorem webhook_run_counterexample:
  \<open>json_loads (removeprefix ''RequestBody:''
      (str_split CHR '','' ''a,RequestBody:{"serial":"xRequestBody:y"}'' ! 1)) =
     Inr (PyDict [(''serial'', PyStr ''xRequestBody:y'')]) \<and>
   calls (journal (snd (runbook json_loads example_store quiet
     [''runbook.py'', ''a,RequestBody:{"serial":"xRequestBody:y"}''] empty_environ))) =
     [(groups, Some (PyStr ''xy''))] \<and>
   calls (journal (snd (runbook json_loads empty_store quiet
     [''runbook.py'', ''ignored,RequestBody:{"serial":"ABC123"}''] empty_environ))) = [] \<and>
   lookups (journal (snd (runbook json_loads nul_store quiet
     [''runbook.py'', ''ignored,RequestBody:{"serial":"ABC123"}''] empty_environ))) = secret_names \<and>
   fst (runbook json_loads nul_store quiet
     [''runbook.py'', ''ignored,RequestBody:{"serial":"ABC123"}''] empty_environ) = Some ValueError \<and>
   calls (journal (snd (runbook json_loads nul_store quiet
     [''runbook.py'', ''ignored,RequestBody:{"serial":"ABC123"}''] empty_environ))) = []\<close>
  by code_simp

text \<open>
  C2.  A run started without an argument, in which the five lookups succeed and the
  environment accepts the five values (none holds a NUL byte), selects the fleet-wide
  mode and calls the generator exactly once, with the whole group table and no serial
  number; the run ends as the generator does.
\<close>

theorem scheduled_run_calls_generator_once:
  assumes "length argv \<le> 1"
    and "\<forall>n\<in>set secret_names. \<exists>v. store n = Some v \<and> CHR 0x00 \<notin> set v"
  shows "parse_argv loads argv = Inr \<lparr>webhook = False, serial = None\<rparr> \<and>
         calls (journal (snd (runbook loads store gen argv env0))) = [(groups, None)] \<and>
         fst (runbook loads store gen argv env0) =
           gen groups None (environ (snd (runbook loads store gen argv env0)))"
proof -
  have parsed: "parse_argv loads argv = Inr \<lparr>webhook = False, serial = None\<rparr>"
    using assms(1) by (rule parse_argv_absent)
  have resolved: "\<forall>n\<in>set secret_names. publishable store n"
    using assms(2) by (auto simp: publishable_def)
  from runbook_calls_when_resolved [OF parsed resolved] runbook_dispatched [OF parsed resolved] parsed
  show ?thesis by simp
qed

theorem scheduled_run_calls_generator_once_witness:
  "length [''runbook.py''] \<le> 1 \<and>
   calls (journal (snd (runbook json_loads example_store quiet [''runbook.py''] empty_environ))) =
     [(groups, None)] \<and>
   fst (runbook json_loads example_store quiet [''runbook.py''] empty_environ) = None"
proof -
  have absent: "length [''runbook.py''] \<le> 1"
    by simp
  have resolved: "\<forall>n\<in>set secret_names. \<exists>v. example_store n = Some v \<and> CHR 0x00 \<notin> set v"
    by (simp add: secret_names_def example_store_def)
  from scheduled_run_calls_generator_once [OF absent resolved, of json_loads quiet empty_environ]
  show ?thesis by (simp add: quiet_def)
qed

text \<open>
  With an empty store the scheduled run ends at the first lookup, before the call; with
  five successful lookups, the last of a value holding a NUL byte, it ends at line 25.
\<close>

theorem scheduled_run_counterexample:
  "length [''runbook.py''] \<le> 1 \<and>
   fst (runbook json_loads empty_store quiet [''runbook.py''] empty_environ) =
     Some (AutomationAssetNotFound ''CLIENT_ID'') \<and>
   calls (journal (snd (runbook json_loads empty_store quiet [''runbook.py''] empty_environ))) = [] \<and>
   lookups (journal (snd (runbook json_loads nul_store quiet [''runbook.py''] empty_environ))) =
     secret_names \<and>
   fst (runbook json_loads nul_store quiet [''runbook.py''] empty_environ) = Some ValueError \<and>
   calls (journal (snd (runbook json_loads nul_store quiet [''runbook.py''] empty_environ))) = []"
  by code_simp

text \<open>
  C3.  A run in which one of the five lookups raises the not-found error ends with that
  error and never calls the generator.  Besides: a run that gets past the argument with
  one of the five names missing ends with an error and without a call; and when the
  values that are present are all accepted by the environment, one of its lookups
  does raise.
\<close>

theorem failed_lookup_ends_run_without_call:
  "(GetVariable n None \<in> set (journal (snd (runbook loads store gen argv env0))) \<longrightarrow>
      n \<in> set secret_names \<and>
      fst (runbook loads store gen argv env0) = Some (AutomationAssetNotFound n) \<and>
      calls (journal (snd (runbook loads store gen argv env0))) = []) \<and>
   (parse_argv loads argv = Inr t \<and> m \<in> set secret_names \<and> store m = None \<longrightarrow>
      fst (runbook loads store gen argv env0) \<noteq> None \<and>
      calls (journal (snd (runbook loads store gen argv env0))) = []) \<and>
   (parse_argv loads argv = Inr t \<and> m \<in> set secret_names \<and> store m = None \<and>
    (\<forall>n\<in>set secret_names. \<forall>v. store n = Some v \<longrightarrow> CHR 0x00 \<notin> set v) \<longrightarrow>
      (\<exists>x. GetVariable x None \<in> set (journal (snd (runbook loads store gen argv env0)))))"
proof (intro conjI impI)
  assume raised: "GetVariable n None \<in> set (journal (snd (runbook loads store gen argv env0)))"
  then obtain t' pre post where run: "parse_argv loads argv = Inr t'"
    "secret_names = pre @ n # post" "\<forall>k\<in>set pre. publishable store k" "store n = None"
    by (rule runbook_failed_lookup)
  show "n \<in> set secret_names" unfolding run(2) by simp
  from runbook_lookup_error [OF run]
  show "fst (runbook loads store gen argv env0) = Some (AutomationAssetNotFound n)"
    by simp
  from runbook_lookup_error [OF run]
  show "calls (journal (snd (runbook loads store gen argv env0))) = []"
    by (simp add: calls_append calls_lookup_then_set)
next
  assume "parse_argv loads argv = Inr t \<and> m \<in> set secret_names \<and> store m = None"
  then have parsed: "parse_argv loads argv = Inr t"
    and "m \<in> set secret_names" and "\<not> publishable store m"
    by (simp_all add: publishable_def)
  then have missing: "\<not> (\<forall>k\<in>set secret_names. publishable store k)"
    by blast
  from runbook_no_call_when_stopped [OF parsed missing]
  show "fst (runbook loads store gen argv env0) \<noteq> None"
    and "calls (journal (snd (runbook loads store gen argv env0))) = []"
    by simp_all
next
  assume *: "parse_argv loads argv = Inr t \<and> m \<in> set secret_names \<and> store m = None \<and>
             (\<forall>n\<in>set secret_names. \<forall>v. store n = Some v \<longrightarrow> CHR 0x00 \<notin> set v)"
  then have parsed: "parse_argv loads argv = Inr t"
    and "m \<in> set secret_names" and "\<not> publishable store m"
    by (simp_all add: publishable_def)
  then have missing: "\<not> (\<forall>k\<in>set secret_names. publishable store k)"
    by blast
  from missing obtain pre x post where split: "secret_names = pre @ x # post"
    "\<forall>k\<in>set pre. publishable store k" "\<not> publishable store x"
    by (rule first_unpublishable)
  have "x \<in> set secret_names"
    unfolding split(1) by simp
  with * split(3) have absent: "store x = None"
    by (cases "store x") (auto simp: publishable_def)
  from runbook_lookup_error [OF parsed split(1,2) absent]
  have "GetVariable x None \<in> set (journal (snd (runbook loads store gen argv env0)))"
    by simp
  then show "\<exists>x. GetVariable x None \<in> set (journal (snd (runbook loads store gen argv env0)))" ..
qed

theorem failed_lookup_ends_run_without_call_witness:
  "GetVariable ''CONTAINER_NAME'' None \<in>
     set (journal (snd (runbook json_loads partial_store quiet [''runbook.py''] empty_environ))) \<and>
   fst (runbook json_loads partial_store quiet [''runbook.py''] empty_environ) =
     Some (AutomationAssetNotFound ''CONTAINER_NAME'') \<and>
   calls (journal (snd (runbook json_loads partial_store quiet [''runbook.py''] empty_environ))) = []"
proof -
  have raised: "GetVariable ''CONTAINER_NAME'' None \<in>
     set (journal (snd (runbook json_loads partial_store quiet [''runbook.py''] empty_environ)))"
    by code_simp
  from failed_lookup_ends_run_without_call
    [of "''CONTAINER_NAME''" json_loads partial_store quiet "[''runbook.py'']" empty_environ]
    raised
  show ?thesis by simp
qed

text \<open>
  C4.  A run whose argument is present and has fewer than two comma-separated
  fields, or whose second field with every occurrence of \<open>RequestBody:\<close> removed is
  rejected by the decoder, or decodes to a value without a \<open>serial\<close> entry, ends with
  that error before any lookup, any assignment to the environment and any generator call.
\<close>

theorem malformed_trigger_ends_run_first:
  assumes "1 < length argv"
    and "data = str_split CHR '','' (argv ! 1)"
    and "w = str_replace ''RequestBody:'' '''' (data ! 1)"
    and "w0 = \<lparr>environ = env0, journal = []\<rparr>"
  shows "(length data < 2 \<longrightarrow> runbook loads store gen argv env0 = (Some IndexError, w0)) \<and>
         (2 \<le> length data \<and> loads w = Inl e \<longrightarrow> runbook loads store gen argv env0 = (Some e, w0)) \<and>
         (2 \<le> length data \<and> loads w = Inr v \<and>
            \<not> (\<exists>items S. v = PyDict items \<and> map_of items ''serial'' = Some S) \<longrightarrow>
          runbook loads store gen argv env0 = (Some (KeyError ''serial''), w0) \<or>
          runbook loads store gen argv env0 = (Some TypeError, w0))"
proof (intro conjI impI)
  assume "length data < 2"
  then have "w_data (argv ! 1) = Inl IndexError"
    unfolding assms(2) by (rule w_data_too_few)
  with assms(1) have "parse_argv loads argv = Inl IndexError"
    by (simp add: parse_argv_def)
  then show "runbook loads store gen argv env0 = (Some IndexError, w0)"
    unfolding assms(4) by (rule runbook_parse_error)
next
  assume "2 \<le> length data \<and> loads w = Inl e"
  then have "w_data (argv ! 1) = Inr w" and "loads w = Inl e"
    unfolding assms(2,3) by (simp_all add: w_data_fields)
  with assms(1) have "parse_argv loads argv = Inl e"
    by (simp add: parse_argv_def)
  then show "runbook loads store gen argv env0 = (Some e, w0)"
    unfolding assms(4) by (rule runbook_parse_error)
next
  assume *: "2 \<le> length data \<and> loads w = Inr v \<and>
             \<not> (\<exists>items S. v = PyDict items \<and> map_of items ''serial'' = Some S)"
  then have payload: "w_data (argv ! 1) = Inr w" and decoded: "loads w = Inr v"
    unfolding assms(2,3) by (simp_all add: w_data_fields)
  from * have "getitem v ''serial'' = Inl (KeyError ''serial'') \<or> getitem v ''serial'' = Inl TypeError"
    by (intro getitem_fails) simp
  with assms(1) payload decoded
  have "parse_argv loads argv = Inl (KeyError ''serial'') \<or> parse_argv loads argv = Inl TypeError"
    by (auto simp: parse_argv_def)
  then show "runbook loads store gen argv env0 = (Some (KeyError ''serial''), w0) \<or>
             runbook loads store gen argv env0 = (Some TypeError, w0)"
    unfolding assms(4) by (auto dest: runbook_parse_error)
qed

theorem malformed_trigger_ends_run_first_witness:
  \<open>json_loads ''{not valid json'' = Inl JSONDecodeError \<and>
   runbook json_loads example_store quiet [''runbook.py'', ''a,RequestBody:{not valid json''] stale_environ =
     (Some JSONDecodeError, \<lparr>environ = stale_environ, journal = []\<rparr>)\<close>
proof -
  let ?argv = \<open>[''runbook.py'', ''a,RequestBody:{not valid json'']\<close>
  have present: "1 < length ?argv"
    by simp
  have fields: \<open>2 \<le> length (str_split CHR '','' (?argv ! 1))\<close>
    by code_simp
  have payload: \<open>str_replace ''RequestBody:'' '''' (str_split CHR '','' (?argv ! 1) ! 1) = ''{not valid json''\<close>
    by code_simp
  have rejected: \<open>json_loads ''{not valid json'' = Inl JSONDecodeError\<close>
    by code_simp
  from malformed_trigger_ends_run_first [OF present refl payload [symmetric] refl,
    of json_loads example_store quiet stale_environ JSONDecodeError]
    fields rejected
  show ?thesis by simp
qed

text \<open>
  A field that is not valid JSON once its prefix is stripped, and that the script
  nevertheless decodes, because the second occurrence of the literal is removed as well:
  the run performs the five lookups and calls the generator.
\<close>

theorem malformed_trigger_counterexample:
  \<open>json_loads (removeprefix ''RequestBody:''
      (str_split CHR '','' ''a,RequestBody:{"serial":"A"RequestBody:}'' ! 1)) = Inl JSONDecodeError \<and>
   fst (runbook json_loads example_store quiet
     [''runbook.py'', ''a,RequestBody:{"serial":"A"RequestBody:}''] empty_environ) = None \<and>
   lookups (journal (snd (runbook json_loads example_store quiet
     [''runbook.py'', ''a,RequestBody:{"serial":"A"RequestBody:}''] empty_environ))) = secret_names \<and>
   calls (journal (snd (runbook json_loads example_store quiet
     [''runbook.py'', ''a,RequestBody:{"serial":"A"RequestBody:}''] empty_environ))) =
     [(groups, Some (PyStr ''A''))]\<close>
  by code_simp

text \<open>
  C5.  The text handed to the decoder is the second comma-separated field with
  every occurrence of the literal \<open>RequestBody:\<close> removed, wherever it stands.  It is the
  field with its \<open>RequestBody:\<close> prefix stripped exactly when what remains after the
  prefix holds no further occurrence of the literal.
\<close>

theorem payload_removes_every_marker:
  assumes "2 \<le> length (str_split CHR '','' arg)"
  shows "w_data arg = Inr (str_replace ''RequestBody:'' '''' (str_split CHR '','' arg ! 1)) \<and>
         (w_data arg = Inr (removeprefix ''RequestBody:'' (str_split CHR '','' arg ! 1)) \<longleftrightarrow>
          \<not> str_contains ''RequestBody:'' (removeprefix ''RequestBody:'' (str_split CHR '','' arg ! 1)))"
  using assms str_replace_agrees_with_removeprefix_iff [of "''RequestBody:''" "str_split CHR '','' arg ! 1"]
  by (simp add: w_data_fields)

theorem payload_removes_every_marker_witness:
  \<open>2 \<le> length (str_split CHR '','' ''ignored,RequestBody:{"serial":"ABC123"}'') \<and>
   w_data ''ignored,RequestBody:{"serial":"ABC123"}'' = Inr ''{"serial":"ABC123"}''\<close>
proof -
  let ?arg = \<open>''ignored,RequestBody:{"serial":"ABC123"}''\<close>
  have enough: "2 \<le> length (str_split CHR '','' ?arg)"
    by code_simp
  have replaced: \<open>str_replace ''RequestBody:'' '''' (str_split CHR '','' ?arg ! 1) = ''{"serial":"ABC123"}''\<close>
    by code_simp
  from payload_removes_every_marker [OF enough]
  have "w_data ?arg = Inr (str_replace ''RequestBody:'' '''' (str_split CHR '','' ?arg ! 1))"
    by (rule conjunct1)
  with enough show ?thesis
    by (simp only: replaced)
qed

text \<open>
  A field whose serial contains the literal: the prefix strip keeps it, line 15 does not.
\<close>

theorem payload_prefix_strip_counterexample:
  \<open>removeprefix ''RequestBody:'' (str_split CHR '','' ''hook,RequestBody:{"serial":"RequestBody:7"}'' ! 1)
     = ''{"serial":"RequestBody:7"}'' \<and>
   w_data ''hook,RequestBody:{"serial":"RequestBody:7"}'' = Inr ''{"serial":"7"}''\<close>
  by code_simp

text \<open>
  C6.  A run that gets past the argument looks the five names up in the fixed order,
  each at most once, and stops at the first line that raises: a lookup that fails, or
  the assignment of a value that the environment rejects (one holding a NUL byte).
  When no line raises these are exactly the five names, each once.  Every value that
  was found and accepted is assigned to the environment under the same name right after
  its lookup, before the next one.
\<close>

theorem lookups_in_fixed_order:
  assumes "parse_argv loads argv = Inr t"
    and "k = length (takeWhile (publishable store) secret_names)"
  shows "lookups (journal (snd (runbook loads store gen argv env0))) = take (Suc k) secret_names \<and>
         store_events (journal (snd (runbook loads store gen argv env0))) =
           concat (map (lookup_then_set store) (take k secret_names)) @
           (if k < 5 then [GetVariable (secret_names ! k) (store (secret_names ! k))] else []) \<and>
         (\<forall>n\<in>set (take k secret_names). \<exists>v. store n = Some v \<and> CHR 0x00 \<notin> set v) \<and>
         ((\<forall>n\<in>set secret_names. \<exists>v. store n = Some v \<and> CHR 0x00 \<notin> set v) \<longrightarrow>
            lookups (journal (snd (runbook loads store gen argv env0))) = secret_names \<and>
            (\<forall>n\<in>set secret_names.
               environ (snd (runbook loads store gen argv env0)) n = store n))"
proof (cases "\<forall>n\<in>set secret_names. publishable store n")
  case True
  then have all: "takeWhile (publishable store) secret_names = secret_names"
    by (simp add: takeWhile_eq_all_conv)
  have k: "k = 5"
    unfolding assms(2) all by (rule length_secret_names)
  from True have present: "\<forall>n\<in>set secret_names. store n \<noteq> None"
    by (auto dest: publishable_present)
  from True have accepted: "\<forall>n\<in>set secret_names. \<exists>v. store n = Some v \<and> CHR 0x00 \<notin> set v"
    by (auto simp: publishable_def split: option.splits)
  from runbook_dispatched [OF assms(1) True] present accepted k show ?thesis
    by (simp add: lookups_append lookups_lookup_then_set store_events_def
        store_events_lookup_then_set [unfolded store_events_def] length_secret_names)
next
  case False
  then obtain pre x post where split: "secret_names = pre @ x # post"
    "\<forall>n\<in>set pre. publishable store n" "\<not> publishable store x"
    by (rule first_unpublishable)
  have "takeWhile (publishable store) (pre @ x # post) = pre"
    using split(2,3) by (simp add: takeWhile_append2)
  then have k: "k = length pre"
    unfolding assms(2) split(1) by simp
  have "length (pre @ x # post) = 5"
    using length_secret_names unfolding split(1) .
  then have less: "k < 5"
    unfolding k by simp
  from split(2) have present: "\<forall>n\<in>set pre. store n \<noteq> None"
    by (auto dest: publishable_present)
  from split(2) have accepted: "\<forall>n\<in>set pre. \<exists>v. store n = Some v \<and> CHR 0x00 \<notin> set v"
    by (auto simp: publishable_def split: option.splits)
  from split(3) have rejected: "\<not> (\<exists>v. store x = Some v \<and> CHR 0x00 \<notin> set v)"
    by (auto simp: publishable_def)
  from runbook_stopped [OF assms(1) split] present accepted rejected k less show ?thesis
    by (auto simp: split(1) lookups_append lookups_lookup_then_set store_events_def
        store_events_lookup_then_set [unfolded store_events_def])
qed

theorem lookups_in_fixed_order_witness:
  "lookups (journal (snd (runbook json_loads example_store quiet [''runbook.py''] empty_environ))) =
     [''CLIENT_ID'', ''CLIENT_SECRET'', ''CONTAINER_NAME'',
      ''AZURE_STORAGE_CONNECTION_STRING'', ''TENANT_NAME''] \<and>
   store_events (journal (snd (runbook json_loads partial_store quiet [''runbook.py''] empty_environ))) =
     [GetVariable ''CLIENT_ID'' (Some ''app-01''), SetEnviron ''CLIENT_ID'' ''app-01'',
      GetVariable ''CLIENT_SECRET'' (Some ''s3cret''), SetEnviron ''CLIENT_SECRET'' ''s3cret'',
      GetVariable ''CONTAINER_NAME'' None]"
proof -
  have parsed: "parse_argv json_loads [''runbook.py''] = Inr \<lparr>webhook = False, serial = None\<rparr>"
    by (simp add: parse_argv_def)
  have all: "5 = length (takeWhile (publishable example_store) secret_names)"
    by (simp add: secret_names_def example_store_def publishable_def)
  have two: "2 = length (takeWhile (publishable partial_store) secret_names)"
    by (simp add: secret_names_def partial_store_def publishable_def)
  from lookups_in_fixed_order [OF parsed all, of quiet empty_environ]
  have first: "lookups (journal (snd (runbook json_loads example_store quiet [''runbook.py''] empty_environ))) =
                 take 6 secret_names"
    by simp
  from lookups_in_fixed_order [OF parsed two, of quiet empty_environ]
  have second: "store_events (journal (snd (runbook json_loads partial_store quiet [''runbook.py''] empty_environ))) =
                  concat (map (lookup_then_set partial_store) (take 2 secret_names)) @
                  [GetVariable (secret_names ! 2) (partial_store (secret_names ! 2))]"
    by simp
  from first second show ?thesis
    by (simp add: secret_names_def lookup_then_set_def partial_store_def)
qed

text \<open>
  Two runs that reach the lookups and do not query the five names: in one the third name
  is missing; in the other the first value holds a NUL byte, its assignment raises, and
  nothing is published though no lookup failed.
\<close>

theorem lookups_in_fixed_order_counterexample:
  "parse_argv json_loads [''runbook.py''] = Inr \<lparr>webhook = False, serial = None\<rparr> \<and>
   lookups (journal (snd (runbook json_loads partial_store quiet [''runbook.py''] empty_environ))) =
     [''CLIENT_ID'', ''CLIENT_SECRET'', ''CONTAINER_NAME''] \<and>
   journal (snd (runbook json_loads nul_first_store quiet [''runbook.py''] empty_environ)) =
     [GetVariable ''CLIENT_ID'' (Some [CHR ''a'', CHR 0x00, CHR ''b''])] \<and>
   fst (runbook json_loads nul_first_store quiet [''runbook.py''] empty_environ) = Some ValueError \<and>
   environ (snd (runbook json_loads nul_first_store quiet [''runbook.py''] empty_environ)) ''CLIENT_ID'' =
     None"
  by code_simp

text \<open>
  C7.  If the \<open>k\<close>-th lookup raises, \<open>1 \<le> k \<le> 5\<close>, then the first \<open>k - 1\<close> names were
  found, the assignments made to the environment are exactly those of the first \<open>k - 1\<close>
  names to their values, in order, and the environment at the end of the run holds these
  values under these names and is what it was before the run everywhere else.
\<close>

theorem failed_lookup_keeps_earlier_assignments:
  assumes "1 \<le> k" and "k \<le> 5"
    and "GetVariable (secret_names ! (k - 1)) None \<in>
           set (journal (snd (runbook loads store gen argv env0)))"
  shows "(\<forall>n\<in>set (take (k - 1) secret_names). store n \<noteq> None) \<and>
         assignments (journal (snd (runbook loads store gen argv env0))) =
           map (\<lambda>n. (n, the (store n))) (take (k - 1) secret_names) \<and>
         (\<forall>x. environ (snd (runbook loads store gen argv env0)) x =
            (if x \<in> set (take (k - 1) secret_names) then store x else env0 x))"
proof -
  from assms(3) obtain t pre post where run: "parse_argv loads argv = Inr t"
    "secret_names = pre @ secret_names ! (k - 1) # post"
    "\<forall>m\<in>set pre. publishable store m" "store (secret_names ! (k - 1)) = None"
    by (rule runbook_failed_lookup)
  have "k - 1 < length secret_names"
    using assms(1,2) by (simp add: length_secret_names)
  with distinct_secret_names run(2) have "k - 1 = length pre"
    by (rule position_in_distinct) simp
  then have "take (k - 1) secret_names = take (length pre) (pre @ secret_names ! (k - 1) # post)"
    using run(2) by simp
  then have pre: "take (k - 1) secret_names = pre"
    by simp
  from run(3) have present: "\<forall>m\<in>set pre. store m \<noteq> None"
    by (auto dest: publishable_present)
  from runbook_lookup_error [OF run] present show ?thesis
    unfolding pre
    by (simp add: assignments_append assignments_lookup_then_set override_on_def)
qed

theorem failed_lookup_keeps_earlier_assignments_witness:
  "GetVariable ''CONTAINER_NAME'' None \<in>
     set (journal (snd (runbook json_loads partial_store quiet [''runbook.py''] stale_environ))) \<and>
   assignments (journal (snd (runbook json_loads partial_store quiet [''runbook.py''] stale_environ))) =
     [(''CLIENT_ID'', ''app-01''), (''CLIENT_SECRET'', ''s3cret'')] \<and>
   environ (snd (runbook json_loads partial_store quiet [''runbook.py''] stale_environ)) ''CLIENT_ID'' =
     Some ''app-01'' \<and>
   environ (snd (runbook json_loads partial_store quiet [''runbook.py''] stale_environ)) ''TENANT_NAME'' =
     Some ''fabrikam'' \<and>
   environ (snd (runbook json_loads partial_store quiet [''runbook.py''] stale_environ)) ''CONTAINER_NAME'' =
     None"
proof -
  have third: "secret_names ! (3 - 1) = ''CONTAINER_NAME''"
    by (simp add: secret_names_def)
  have raised: "GetVariable (secret_names ! (3 - 1)) None \<in>
     set (journal (snd (runbook json_loads partial_store quiet [''runbook.py''] stale_environ)))"
    unfolding third by code_simp
  have first_two: "take (3 - 1) secret_names = [''CLIENT_ID'', ''CLIENT_SECRET'']"
    by (simp add: secret_names_def)
  from failed_lookup_keeps_earlier_assignments [of 3, OF _ _ raised] raised
  show ?thesis
    unfolding third first_two
    by (simp add: partial_store_def stale_environ_def)
qed

text \<open>
  C8.  The group table does not depend on the run: whatever the argument, the decoder,
  the store, the generator and the environment, a generator call of one run and a
  generator call of another receive the same list, which is the table as it was built,
  records in the same order.  The two \<open>id\<close> values of the table are present and distinct.
\<close>

theorem group_table_fixed_and_distinct:
  "(MmgMain g s \<in> set (journal (snd (runbook loads store gen argv env0))) \<and>
    MmgMain g' s' \<in> set (journal (snd (runbook loads' store' gen' argv' env0'))) \<longrightarrow>
      g = groups \<and> g' = g) \<and>
   (\<forall>r\<in>set groups. map_of r ''id'' \<noteq> None) \<and>
   distinct (map (\<lambda>r. map_of r ''id'') groups)"
proof (intro conjI impI)
  assume both: "MmgMain g s \<in> set (journal (snd (runbook loads store gen argv env0))) \<and>
                MmgMain g' s' \<in> set (journal (snd (runbook loads' store' gen' argv' env0')))"
  from both have "g = groups"
    by (auto elim: runbook_call)
  moreover from both have "g' = groups"
    by (auto elim: runbook_call)
  ultimately show "g = groups" and "g' = g"
    by simp_all
next
  show "\<forall>r\<in>set groups. map_of r ''id'' \<noteq> None"
    by (simp add: groups_def)
  show "distinct (map (\<lambda>r. map_of r ''id'') groups)"
    by (simp add: groups_def)
qed

theorem group_table_fixed_and_distinct_witness:
  \<open>MmgMain groups (Some (PyStr ''ABC123'')) \<in> set (journal (snd (runbook json_loads example_store quiet
     [''runbook.py'', ''ignored,RequestBody:{"serial":"ABC123"}''] empty_environ))) \<and>
   MmgMain groups None \<in> set (journal (snd (runbook json_loads example_store quiet
     [''runbook.py''] stale_environ))) \<and>
   map (\<lambda>r. map_of r ''id'') groups = [Some ''id_of_aad_group_1'', Some ''id_of_aad_group_2''] \<and>
   distinct (map (\<lambda>r. map_of r ''id'') groups)\<close>
proof -
  have one: \<open>MmgMain groups (Some (PyStr ''ABC123'')) \<in> set (journal (snd (runbook json_loads
     example_store quiet [''runbook.py'', ''ignored,RequestBody:{"serial":"ABC123"}''] empty_environ)))\<close>
    by code_simp
  have other: "MmgMain groups None \<in> set (journal (snd (runbook json_loads example_store quiet
     [''runbook.py''] stale_environ)))"
    by code_simp
  have ids: "map (\<lambda>r. map_of r ''id'') groups = [Some ''id_of_aad_group_1'', Some ''id_of_aad_group_2'']"
    by (simp add: groups_def)
  have "distinct (map (\<lambda>r. map_of r ''id'') groups)"
    by (rule group_table_fixed_and_distinct [THEN conjunct2, THEN conjunct2])
  with one other ids show ?thesis
    by (simp only: simp_thms)
qed

text \<open>
  C9.  Only \<open>sys.argv[1]\<close> and whether it exists are read.  Two argument vectors that
  agree there, both with the same first argument or both without one, give the same
  mode and serial and the same run: status, environment and journal, hence the same
  generator call.
\<close>

theorem further_arguments_never_read:
  assumes "(1 < length argv \<and> 1 < length argv' \<and> argv ! 1 = argv' ! 1) \<or>
           (length argv \<le> 1 \<and> length argv' \<le> 1)"
  shows "parse_argv loads argv = parse_argv loads argv' \<and>
         runbook loads store gen argv env0 = runbook loads store gen argv' env0"
proof -
  from assms have "parse_argv loads argv = parse_argv loads argv'"
    by (auto simp: parse_argv_def)
  then show ?thesis
    by (simp add: runbook_def)
qed

theorem further_arguments_never_read_witness:
  \<open>runbook json_loads example_store quiet
     [''runbook.py'', ''ignored,RequestBody:{"serial":"ABC123"}'', ''--fleet'', ''x,RequestBody:{}'']
     empty_environ =
   runbook json_loads example_store quiet
     [''other.py'', ''ignored,RequestBody:{"serial":"ABC123"}''] empty_environ \<and>
   runbook json_loads example_store quiet [] empty_environ =
   runbook json_loads example_store quiet [''runbook.py''] empty_environ\<close>
proof -
  let ?arg = \<open>''ignored,RequestBody:{"serial":"ABC123"}''\<close>
  have same: \<open>(1 < length [''runbook.py'', ?arg, ''--fleet'', ''x,RequestBody:{}''] \<and>
                1 < length [''other.py'', ?arg] \<and>
                [''runbook.py'', ?arg, ''--fleet'', ''x,RequestBody:{}''] ! 1 = [''other.py'', ?arg] ! 1) \<or>
               (length [''runbook.py'', ?arg, ''--fleet'', ''x,RequestBody:{}''] \<le> 1 \<and>
                length [''other.py'', ?arg] \<le> 1)\<close>
    by simp
  have none: "(1 < length ([] :: string list) \<and> 1 < length [''runbook.py''] \<and>
                ([] :: string list) ! 1 = [''runbook.py''] ! 1) \<or>
              (length ([] :: string list) \<le> 1 \<and> length [''runbook.py''] \<le> 1)"
    by simp
  from further_arguments_never_read [OF same] further_arguments_never_read [OF none]
  show ?thesis by blast
qed

text \<open>
  C10.  Whatever value the decoder finds under \<open>serial\<close> in the payload (the
  second field with every occurrence of \<open>RequestBody:\<close> removed), string or not, is
  taken as it is: no check of its type stops the run, every generator call of the run
  carries exactly this value as \<open>serial_number\<close>, and when the five lookups succeed and
  the environment accepts the five values (none holds a NUL byte) the generator is
  called exactly once, with this value.
\<close>

theorem serial_forwarded_unchecked:
  assumes "1 < length argv"
    and "w_data (argv ! 1) = Inr w"
    and "loads w = Inr (PyDict items)"
    and "map_of items ''serial'' = Some v"
  shows "parse_argv loads argv = Inr \<lparr>webhook = True, serial = Some v\<rparr> \<and>
         (MmgMain g s \<in> set (journal (snd (runbook loads store gen argv env0))) \<longrightarrow> s = Some v) \<and>
         ((\<forall>n\<in>set secret_names. \<exists>x. store n = Some x \<and> CHR 0x00 \<notin> set x) \<longrightarrow>
            calls (journal (snd (runbook loads store gen argv env0))) = [(groups, Some v)])"
proof (intro conjI impI)
  show parsed: "parse_argv loads argv = Inr \<lparr>webhook = True, serial = Some v\<rparr>"
    using assms by (rule parse_argv_webhook)
  {
    assume "MmgMain g s \<in> set (journal (snd (runbook loads store gen argv env0)))"
    then obtain t where "parse_argv loads argv = Inr t" "s = (if webhook t then serial t else None)"
      by (rule runbook_call)
    with parsed show "s = Some v"
      by simp
  next
    assume "\<forall>n\<in>set secret_names. \<exists>x. store n = Some x \<and> CHR 0x00 \<notin> set x"
    then have "\<forall>n\<in>set secret_names. publishable store n"
      by (auto simp: publishable_def)
    with parsed show "calls (journal (snd (runbook loads store gen argv env0))) = [(groups, Some v)]"
      by (simp add: runbook_calls_when_resolved)
  }
qed

theorem serial_forwarded_unchecked_witness:
  \<open>w_data ''a,RequestBody:{"serial":42}'' = Inr ''{"serial":42}'' \<and>
   json_loads ''{"serial":42}'' = Inr (PyDict [(''serial'', PyInt 42)]) \<and>
   calls (journal (snd (runbook json_loads example_store quiet
     [''runbook.py'', ''a,RequestBody:{"serial":42}''] empty_environ))) = [(groups, Some (PyInt 42))]\<close>
proof -
  let ?argv = \<open>[''runbook.py'', ''a,RequestBody:{"serial":42}'']\<close>
  have present: "1 < length ?argv"
    by simp
  have payload: \<open>w_data (?argv ! 1) = Inr ''{"serial":42}''\<close>
    by code_simp
  have decoded: \<open>json_loads ''{"serial":42}'' = Inr (PyDict [(''serial'', PyInt 42)])\<close>
    by code_simp
  have found: "map_of [(''serial'', PyInt 42)] ''serial'' = Some (PyInt 42)"
    by simp
  have resolved: "\<forall>n\<in>set secret_names. \<exists>x. example_store n = Some x \<and> CHR 0x00 \<notin> set x"
    by (simp add: secret_names_def example_store_def)
  from serial_forwarded_unchecked
    [of ?argv _ json_loads "[(''serial'', PyInt 42)]" "PyInt 42" _ _ example_store quiet empty_environ,
      OF present payload decoded found]
    resolved payload decoded
  show ?thesis by simp
qed

text \<open>
  A serial that is a list holding the literal reaches the generator as a list holding the
  empty string; with an empty store no value reaches the generator at all; nor does one
  when the five lookups succeed and the last value holds a NUL byte.
\<close>

theorem serial_forwarded_counterexample:
  \<open>json_loads (removeprefix ''RequestBody:''
      (str_split CHR '','' ''a,RequestBody:{"serial":["RequestBody:"]}'' ! 1)) =
     Inr (PyDict [(''serial'', PyList [PyStr ''RequestBody:''])]) \<and>
   calls (journal (snd (runbook json_loads example_store quiet
     [''runbook.py'', ''a,RequestBody:{"serial":["RequestBody:"]}''] empty_environ))) =
     [(groups, Some (PyList [PyStr '''']))] \<and>
   calls (journal (snd (runbook json_loads empty_store quiet
     [''runbook.py'', ''a,RequestBody:{"serial":42}''] empty_environ))) = [] \<and>
   lookups (journal (snd (runbook json_loads nul_store quiet
     [''runbook.py'', ''a,RequestBody:{"serial":42}''] empty_environ))) = secret_names \<and>
   calls (journal (snd (runbook json_loads nul_store quiet
     [''runbook.py'', ''a,RequestBody:{"serial":42}''] empty_environ))) = []\<close>
  by code_simp

end
